theory Spec2Isabelle
  imports Main "HOL-Library.Word"
begin

unbundle bit_operations_syntax

section \<open>Hardware profiles, pins and the observable trace\<close>

text \<open>
  The sketch \<^verbatim>\<open>try_attiny85_watchdog_and_user_interrupt.ino\<close> is compiled for one of two
  hardware profiles, selected by \<^verbatim>\<open>#if defined(__AVR_ATmega328P__)\<close> /
  \<^verbatim>\<open>#elif defined(__AVR_ATtiny85__)\<close>. The profile is a parameter of every function whose
  text depends on it.
\<close>

datatype platform = ATmega328P | ATtiny85

type_synonym u8 = "8 word"

datatype pin_mode = INPUT | OUTPUT

datatype level = LOW | HIGH

text \<open>
  Everything the sketch does to the outside world goes through \<^verbatim>\<open>pinMode\<close>,
  \<^verbatim>\<open>digitalWrite\<close> and \<^verbatim>\<open>delay\<close>. The model logs each call, in order.
\<close>

datatype io = PinMode u8 pin_mode | DigitalWrite u8 level | Delay nat

fun WATCHDOG_TIMEOUT_LED_PIN :: "platform \<Rightarrow> u8" where
  "WATCHDOG_TIMEOUT_LED_PIN ATmega328P = 13"
| "WATCHDOG_TIMEOUT_LED_PIN ATtiny85 = 0"

fun SLEEP_INTERRUPT_LED_PIN :: "platform \<Rightarrow> u8" where
  "SLEEP_INTERRUPT_LED_PIN ATmega328P = 12"
| "SLEEP_INTERRUPT_LED_PIN ATtiny85 = 1"

fun INT0_PIN :: "platform \<Rightarrow> u8" where
  "INT0_PIN ATmega328P = 2"
| "INT0_PIN ATtiny85 = 2"

fun PCINT0_PIN :: "platform \<Rightarrow> u8" where
  "PCINT0_PIN ATmega328P = 8"
| "PCINT0_PIN ATtiny85 = 3"

section \<open>Machine state\<close>

text \<open>
  The global \<^verbatim>\<open>int8_t watchdogTimeoutsRemaining\<close> is an 8-bit word, read as a signed number
  by \<^const>\<open>sint\<close>. The special-function registers the sketch touches are 8-bit words.
  \<^verbatim>\<open>_WD_CONTROL_REG\<close> is WDTCR on the ATtiny85 and WDTCSR on the ATmega328P; the sleep control
  register is MCUCR on the ATtiny85 (shared with the INT0 sense bits) and SMCR on the ATmega328P.
\<close>

record mcu =
  watchdogTimeoutsRemaining :: "8 word"
  WD_CONTROL_REG :: u8
  MCUSR :: u8
  MCUCR :: u8
  SMCR :: u8
  GIMSK :: u8
  PCMSK :: u8
  EIMSK :: u8
  EICRA :: u8
  PCICR :: u8
  PCMSK0 :: u8
  SREG_I :: bool
  trace :: "io list"

text \<open>
  Modelled from the spec: the bit numbers of \<^verbatim>\<open>avr/io.h\<close> are not under src/. They are the
  positions given by the device headers for the registers named in the sketch; the watchdog
  control register has the same layout on both profiles.
\<close>

definition BV :: "nat \<Rightarrow> u8" where
  "BV n = push_bit n 1"

definition WDIE :: nat where [simp]: "WDIE = 6"
definition WDP3 :: nat where [simp]: "WDP3 = 5"
definition WDE :: nat where [simp]: "WDE = 3"
definition WDRF :: nat where [simp]: "WDRF = 3"
definition PORF :: nat where [simp]: "PORF = 0"
definition ISC01 :: nat where [simp]: "ISC01 = 1"
definition ISC00 :: nat where [simp]: "ISC00 = 0"
definition PCIE0 :: nat where [simp]: "PCIE0 = 0"
definition PCIE :: nat where [simp]: "PCIE = 5"
definition PCINT1 :: nat where [simp]: "PCINT1 = 1"
definition PCINT3 :: nat where [simp]: "PCINT3 = 3"
definition WDTO_8S :: u8 where [simp]: "WDTO_8S = 9"

fun INT0 :: "platform \<Rightarrow> nat" where
  "INT0 ATmega328P = 0"
| "INT0 ATtiny85 = 6"

fun SE :: "platform \<Rightarrow> nat" where
  "SE ATmega328P = 0"
| "SE ATtiny85 = 5"

fun SLEEP_MODE_MASK :: "platform \<Rightarrow> u8" where
  "SLEEP_MODE_MASK ATmega328P = BV 1 OR BV 2 OR BV 3"
| "SLEEP_MODE_MASK ATtiny85 = BV 3 OR BV 4"

fun SLEEP_MODE_PWR_DOWN :: "platform \<Rightarrow> u8" where
  "SLEEP_MODE_PWR_DOWN ATmega328P = BV 2"
| "SLEEP_MODE_PWR_DOWN ATtiny85 = BV 4"

section \<open>Library calls used by the sketch\<close>

text \<open>
  Modelled from the spec: the Arduino core calls \<^verbatim>\<open>pinMode\<close>, \<^verbatim>\<open>digitalWrite\<close> and
  \<^verbatim>\<open>delay\<close> are not under src/. The spec treats pin configuration and LED signalling as
  opaque external collaborators, so each call only appends itself to the trace. The argument
  of \<^verbatim>\<open>delay\<close> is an \<^verbatim>\<open>unsigned long\<close>, 32 bits wide; the log records its value.
\<close>

definition pinMode :: "u8 \<Rightarrow> pin_mode \<Rightarrow> mcu \<Rightarrow> mcu" where
  "pinMode pin m s = s\<lparr>trace := trace s @ [PinMode pin m]\<rparr>"

definition digitalWrite :: "u8 \<Rightarrow> level \<Rightarrow> mcu \<Rightarrow> mcu" where
  "digitalWrite pin v s = s\<lparr>trace := trace s @ [DigitalWrite pin v]\<rparr>"

definition delay :: "32 word \<Rightarrow> mcu \<Rightarrow> mcu" where
  "delay ms s = s\<lparr>trace := trace s @ [Delay (unat ms)]\<rparr>"

text \<open>
  Modelled from the spec: \<^verbatim>\<open>sei\<close>, \<^verbatim>\<open>set_sleep_mode\<close>, \<^verbatim>\<open>sleep_enable\<close> and
  \<^verbatim>\<open>sleep_disable\<close> of avr-libc are not under src/. \<^verbatim>\<open>sei\<close> sets
  the global interrupt-enable flag; the sleep macros rewrite the sleep-mode and sleep-enable bits
  of the sleep control register and leave its other bits alone.
\<close>

definition sei :: "mcu \<Rightarrow> mcu" where
  "sei s = s\<lparr>SREG_I := True\<rparr>"

fun set_sleep_mode :: "platform \<Rightarrow> u8 \<Rightarrow> mcu \<Rightarrow> mcu" where
  "set_sleep_mode ATmega328P m s =
     s\<lparr>SMCR := (SMCR s AND NOT (SLEEP_MODE_MASK ATmega328P)) OR m\<rparr>"
| "set_sleep_mode ATtiny85 m s =
     s\<lparr>MCUCR := (MCUCR s AND NOT (SLEEP_MODE_MASK ATtiny85)) OR m\<rparr>"

fun sleep_enable :: "platform \<Rightarrow> mcu \<Rightarrow> mcu" where
  "sleep_enable ATmega328P s = s\<lparr>SMCR := SMCR s OR BV (SE ATmega328P)\<rparr>"
| "sleep_enable ATtiny85 s = s\<lparr>MCUCR := MCUCR s OR BV (SE ATtiny85)\<rparr>"

fun sleep_disable :: "platform \<Rightarrow> mcu \<Rightarrow> mcu" where
  "sleep_disable ATmega328P s = s\<lparr>SMCR := SMCR s AND NOT (BV (SE ATmega328P))\<rparr>"
| "sleep_disable ATtiny85 s = s\<lparr>MCUCR := MCUCR s AND NOT (BV (SE ATtiny85))\<rparr>"

text \<open>
  Modelled from the spec: \<^verbatim>\<open>wdt_enable\<close> and \<^verbatim>\<open>wdt_disable\<close> of avr-libc are not under
  src/. \<^verbatim>\<open>wdt_enable(value)\<close> starts periodic generation: it writes the watchdog-enable bit
  and the prescaler selected by \<^verbatim>\<open>value\<close>. \<^verbatim>\<open>wdt_disable()\<close> turns periodic generation
  off by writing zero to the control register. The spec says a stale reset-cause flag can
  corrupt this, and the sketch's comment cites the data sheet's note on the WDE bit: while
  WDRF is set in MCUSR the hardware keeps WDE set, so the watchdog stays on.
\<close>

definition wdt_enable :: "u8 \<Rightarrow> mcu \<Rightarrow> mcu" where
  "wdt_enable v s =
     s\<lparr>WD_CONTROL_REG := (if v AND 8 \<noteq> 0 then BV WDP3 else 0) OR BV WDE OR (v AND 7)\<rparr>"

definition wdt_disable :: "mcu \<Rightarrow> mcu" where
  "wdt_disable s = s\<lparr>WD_CONTROL_REG := (if bit (MCUSR s) WDRF then BV WDE else 0)\<rparr>"

section \<open>The sketch\<close>

text \<open>
  \<^verbatim>\<open>flashLED(pin, times)\<close> runs its loop body \<^verbatim>\<open>times\<close> times (the counter and the bound
  are both \<^verbatim>\<open>uint8_t\<close>, so the counter reaches the bound without wrapping).
\<close>

primrec flashLED_loop :: "u8 \<Rightarrow> nat \<Rightarrow> mcu \<Rightarrow> mcu" where
  "flashLED_loop pin 0 s = s"
| "flashLED_loop pin (Suc n) s =
     flashLED_loop pin n
       (delay 200 (digitalWrite pin LOW (delay 200 (digitalWrite pin HIGH s))))"

definition flashLED :: "u8 \<Rightarrow> u8 \<Rightarrow> mcu \<Rightarrow> mcu" where
  "flashLED pin n s = flashLED_loop pin (unat n) s"

definition turnOnLED :: "u8 \<Rightarrow> 32 word \<Rightarrow> mcu \<Rightarrow> mcu" where
  "turnOnLED pin ms s = digitalWrite pin LOW (delay ms (digitalWrite pin HIGH s))"

definition configInputWithPullup :: "u8 \<Rightarrow> mcu \<Rightarrow> mcu" where
  "configInputWithPullup pin s = digitalWrite pin HIGH (pinMode pin INPUT s)"

definition disable_watchdog :: "mcu \<Rightarrow> mcu" where
  "disable_watchdog s = wdt_disable (s\<lparr>MCUSR := MCUSR s AND NOT (BV WDRF)\<rparr>)"

fun configInt0 :: "platform \<Rightarrow> mcu \<Rightarrow> mcu" where
  "configInt0 ATmega328P s = (s\<lparr>EIMSK := BV (INT0 ATmega328P)\<rparr>)\<lparr>EICRA := BV ISC01\<rparr>"
| "configInt0 ATtiny85 s =
     (let s1 = s\<lparr>GIMSK := GIMSK s OR BV (INT0 ATtiny85)\<rparr>
      in s1\<lparr>MCUCR := MCUCR s1 AND NOT (BV ISC01 OR BV ISC00)\<rparr>)"

fun configPinChangeInt0 :: "platform \<Rightarrow> mcu \<Rightarrow> mcu" where
  "configPinChangeInt0 ATmega328P s =
     (let s1 = s\<lparr>PCICR := PCICR s OR BV PCIE0\<rparr>
      in s1\<lparr>PCMSK0 := PCMSK0 s1 OR BV PCINT1\<rparr>)"
| "configPinChangeInt0 ATtiny85 s =
     (let s1 = s\<lparr>GIMSK := GIMSK s OR BV PCIE\<rparr>
      in s1\<lparr>PCMSK := PCMSK s1 OR BV PCINT3\<rparr>)"

text \<open>The three interrupt service routines, statement by statement.\<close>

definition ISR_WDT_vect :: "platform \<Rightarrow> mcu \<Rightarrow> mcu" where
  "ISR_WDT_vect p s =
     (let s1 = s\<lparr>watchdogTimeoutsRemaining := watchdogTimeoutsRemaining s - 1\<rparr>;
          s2 = flashLED (WATCHDOG_TIMEOUT_LED_PIN p) 1 s1
      in s2\<lparr>WD_CONTROL_REG := WD_CONTROL_REG s2 OR BV WDIE\<rparr>)"

definition ISR_INT0_vect :: "platform \<Rightarrow> mcu \<Rightarrow> mcu" where
  "ISR_INT0_vect p s = flashLED (WATCHDOG_TIMEOUT_LED_PIN p) 2 s"

definition ISR_PCINT0_vect :: "mcu \<Rightarrow> mcu" where
  "ISR_PCINT0_vect s = delay 50 s"

text \<open>
  \<^verbatim>\<open>setup()\<close>. The name carries a suffix because the plain word is reserved in Isabelle.
\<close>

definition setup_sketch :: "platform \<Rightarrow> mcu \<Rightarrow> mcu" where
  "setup_sketch p s =
     (let s1 = disable_watchdog s;
          s2 = pinMode (WATCHDOG_TIMEOUT_LED_PIN p) OUTPUT s1;
          s3 = pinMode (SLEEP_INTERRUPT_LED_PIN p) OUTPUT s2;
          s4 = configInputWithPullup (INT0_PIN p) s3;
          s5 = configInt0 p s4;
          s6 = configInputWithPullup (PCINT0_PIN p) s5;
          s7 = configPinChangeInt0 p s6;
          s8 = turnOnLED (WATCHDOG_TIMEOUT_LED_PIN p) 1000 s7;
          s9 = turnOnLED (SLEEP_INTERRUPT_LED_PIN p) 1000 s8;
          s10 = wdt_enable WDTO_8S s9;
          s11 = s10\<lparr>WD_CONTROL_REG := WD_CONTROL_REG s10 OR BV WDIE\<rparr>
      in sei s11)"

section \<open>Interrupt hardware and the sleep suspension point\<close>

text \<open>
  Modelled from the spec: what the interrupt hardware does while the processor is suspended in
  \<^verbatim>\<open>sleep_cpu()\<close> is not under src/. A stimulus is one thing the environment does while the
  main context is suspended: the watchdog period elapses, the INT0 input is pulled to the wake
  (low) level and found still low at \<open>k\<close> further handler returns before it goes back high,
  the INT0 input returns to the high level, or the level of a numbered pin changes.
  The hardware serves a stimulus in the same way whether the processor sleeps or runs: the
  interrupts stay enabled through the whole loop body.
\<close>

datatype stimulus = WdtTimeout | Int0Low nat | Int0High | PinChange u8

datatype sense = LowLevel | AnyChange | FallingEdge | RisingEdge

text \<open>
  The INT0 sense control bits ISC01:ISC00 live in EICRA on the ATmega328P and in MCUCR on the
  ATtiny85: 00 is the low level, 01 any change, 10 the falling edge, 11 the rising edge.
\<close>

fun int0_sense_reg :: "platform \<Rightarrow> mcu \<Rightarrow> u8" where
  "int0_sense_reg ATmega328P s = EICRA s"
| "int0_sense_reg ATtiny85 s = MCUCR s"

definition int0_sense :: "platform \<Rightarrow> mcu \<Rightarrow> sense" where
  "int0_sense p s =
     (let r = int0_sense_reg p s
      in if bit r ISC01 then (if bit r ISC00 then RisingEdge else FallingEdge)
         else (if bit r ISC00 then AnyChange else LowLevel))"

fun int0_enabled :: "platform \<Rightarrow> mcu \<Rightarrow> bool" where
  "int0_enabled ATmega328P s = bit (EIMSK s) (INT0 ATmega328P)"
| "int0_enabled ATtiny85 s = bit (GIMSK s) (INT0 ATtiny85)"

text \<open>
  Pin-change interrupt 0 watches port B. A pin raises it when the group is enabled and the
  pin's own mask bit is set. On the ATtiny85 pin PBn has mask bit n of PCMSK; on the
  ATmega328P board the digital pins 8 to 13 are PB0 to PB5, with mask bits 0 to 5 of PCMSK0.
\<close>

fun pcint0_enabled :: "platform \<Rightarrow> u8 \<Rightarrow> mcu \<Rightarrow> bool" where
  "pcint0_enabled ATmega328P pin s =
     (bit (PCICR s) PCIE0 \<and> 8 \<le> pin \<and> pin \<le> 13 \<and> bit (PCMSK0 s) (unat pin - 8))"
| "pcint0_enabled ATtiny85 pin s =
     (bit (GIMSK s) PCIE \<and> pin \<le> 5 \<and> bit (PCMSK s) (unat pin))"

text \<open>
  A handler runs with the global interrupt-enable flag cleared; the return from the handler
  sets it again.
\<close>

definition isr_call :: "(mcu \<Rightarrow> mcu) \<Rightarrow> mcu \<Rightarrow> mcu" where
  "isr_call h s = (h (s\<lparr>SREG_I := False\<rparr>))\<lparr>SREG_I := True\<rparr>"

text \<open>
  The watchdog's single-fire interrupt enable: when the watchdog-enable bit WDE is set as
  well, the hardware clears WDIE as the interrupt is taken (the spec's platforms that
  auto-clear the enable bit after each firing). A time-out that finds WDIE clear and WDE set
  resets the processor.
\<close>

definition wdt_take :: "mcu \<Rightarrow> mcu" where
  "wdt_take s =
     (if bit (WD_CONTROL_REG s) WDE
      then s\<lparr>WD_CONTROL_REG := WD_CONTROL_REG s AND NOT (BV WDIE)\<rparr> else s)"

datatype wake = Sleeping | Woken mcu | SystemReset

fun sleep_cpu :: "platform \<Rightarrow> stimulus \<Rightarrow> mcu \<Rightarrow> wake" where
  "sleep_cpu p WdtTimeout s =
     (if bit (WD_CONTROL_REG s) WDIE
      then (if SREG_I s then Woken (isr_call (ISR_WDT_vect p) (wdt_take s)) else Sleeping)
      else if bit (WD_CONTROL_REG s) WDE then SystemReset else Sleeping)"
| "sleep_cpu p (Int0Low k) s =
     (if SREG_I s \<and> int0_enabled p s
      then (case int0_sense p s of
              LowLevel \<Rightarrow> Woken ((isr_call (ISR_INT0_vect p) ^^ Suc k) s)
            | AnyChange \<Rightarrow> Woken (isr_call (ISR_INT0_vect p) s)
            | FallingEdge \<Rightarrow> Woken (isr_call (ISR_INT0_vect p) s)
            | RisingEdge \<Rightarrow> Sleeping)
      else Sleeping)"
| "sleep_cpu p Int0High s =
     (if SREG_I s \<and> int0_enabled p s
      then (case int0_sense p s of
              LowLevel \<Rightarrow> Sleeping
            | AnyChange \<Rightarrow> Woken (isr_call (ISR_INT0_vect p) s)
            | FallingEdge \<Rightarrow> Sleeping
            | RisingEdge \<Rightarrow> Woken (isr_call (ISR_INT0_vect p) s))
      else Sleeping)"
| "sleep_cpu p (PinChange pin) s =
     (if SREG_I s \<and> pcint0_enabled p pin s
      then Woken (isr_call ISR_PCINT0_vect s) else Sleeping)"

text \<open>
  \<^verbatim>\<open>loop()\<close>, given the stimulus that arrives while it is suspended in \<^verbatim>\<open>sleep_cpu()\<close>.
  \<open>loop_suspend\<close> is the part of the body before the suspension point
  (\<^verbatim>\<open>set_sleep_mode\<close>, \<^verbatim>\<open>sleep_enable\<close>, \<^verbatim>\<open>sei\<close>), \<open>loop_resume\<close> the part after it
  (\<^verbatim>\<open>sleep_disable\<close>, the flash of the sleep-interrupt LED, the budget check). When the
  stimulus raises no enabled interrupt the processor stays asleep and the rest of the body
  does not run.
\<close>

definition loop_suspend :: "platform \<Rightarrow> mcu \<Rightarrow> mcu" where
  "loop_suspend p s =
     (let s1 = set_sleep_mode p (SLEEP_MODE_PWR_DOWN p) s;
          s2 = sleep_enable p s1
      in sei s2)"

definition loop_resume :: "platform \<Rightarrow> mcu \<Rightarrow> mcu" where
  "loop_resume p s4 =
     (let s5 = sleep_disable p s4;
          s6 = flashLED (SLEEP_INTERRUPT_LED_PIN p) 1 s5
      in if watchdogTimeoutsRemaining s6 = 0 then disable_watchdog s6 else s6)"

definition loop :: "platform \<Rightarrow> stimulus \<Rightarrow> mcu \<Rightarrow> wake" where
  "loop p e s =
     (case sleep_cpu p e (loop_suspend p s) of
        Sleeping \<Rightarrow> Sleeping
      | SystemReset \<Rightarrow> SystemReset
      | Woken s4 \<Rightarrow> Woken (loop_resume p s4))"

text \<open>
  The state after power-on: the C start-up code has initialised the counter to 10, the
  registers hold their reset values, nothing has been logged. A watchdog reset does the same
  except that the reset-cause flags are kept and WDRF is added to them, which forces WDE; the
  log goes on.
\<close>

definition power_on :: mcu where
  "power_on =
     \<lparr>watchdogTimeoutsRemaining = 10, WD_CONTROL_REG = 0, MCUSR = BV PORF, MCUCR = 0, SMCR = 0,
      GIMSK = 0, PCMSK = 0, EIMSK = 0, EICRA = 0, PCICR = 0, PCMSK0 = 0, SREG_I = False,
      trace = []\<rparr>"

definition watchdog_reset :: "mcu \<Rightarrow> mcu" where
  "watchdog_reset s =
     power_on\<lparr>MCUSR := MCUSR s OR BV WDRF, WD_CONTROL_REG := BV WDE, trace := trace s\<rparr>"

definition boot :: "platform \<Rightarrow> mcu" where
  "boot p = setup_sketch p power_on"

text \<open>
  The Arduino core calls \<^verbatim>\<open>setup()\<close> once and then \<^verbatim>\<open>loop()\<close> forever. \<open>run\<close> feeds a
  finite history of stimuli to successive suspensions; a stimulus that wakes nothing leaves the
  processor asleep in the same call of \<^verbatim>\<open>loop()\<close>. The model then keeps the state from
  before that call: it differs from the suspended state only in the sleep bits and the
  interrupt flag, which the call writes again.
\<close>

fun run :: "platform \<Rightarrow> stimulus list \<Rightarrow> mcu \<Rightarrow> mcu" where
  "run p [] s = s"
| "run p (e # es) s =
     (case loop p e s of
        Sleeping \<Rightarrow> run p es s
      | Woken s' \<Rightarrow> run p es s'
      | SystemReset \<Rightarrow> run p es (setup_sketch p (watchdog_reset s)))"

text \<open>
  \<open>loop\<close> and \<open>run\<close> describe the schedule the spec assumes, a single active reason per
  wake cycle: every handler run is followed by the rest of the loop body before the next
  stimulus. The source does not enforce that schedule. A stimulus that arrives while a
  handler runs, or that is held, is served as soon as the handler returns, before the main
  context goes on to \<^verbatim>\<open>sleep_disable()\<close>, the flash and the budget check.
  \<open>serve_pending\<close> serves such stimuli one after the other (the result is \<open>None\<close> when one
  of them resets the processor), \<open>loop_interleaved\<close> is \<^verbatim>\<open>loop()\<close> with the stimulus that
  wakes it and the stimuli served before the rest of its body runs, and \<open>run_interleaved\<close>
  is the Arduino main loop over a history of such wake cycles.
\<close>

fun serve_pending :: "platform \<Rightarrow> stimulus list \<Rightarrow> mcu \<Rightarrow> mcu option" where
  "serve_pending p [] s = Some s"
| "serve_pending p (e # es) s =
     (case sleep_cpu p e s of
        Sleeping \<Rightarrow> serve_pending p es s
      | Woken s' \<Rightarrow> serve_pending p es s'
      | SystemReset \<Rightarrow> None)"

definition loop_interleaved :: "platform \<Rightarrow> stimulus \<Rightarrow> stimulus list \<Rightarrow> mcu \<Rightarrow> wake" where
  "loop_interleaved p e pending s =
     (case sleep_cpu p e (loop_suspend p s) of
        Sleeping \<Rightarrow> Sleeping
      | SystemReset \<Rightarrow> SystemReset
      | Woken s4 \<Rightarrow>
          (case serve_pending p pending s4 of
             None \<Rightarrow> SystemReset
           | Some s4' \<Rightarrow> Woken (loop_resume p s4')))"

fun run_interleaved :: "platform \<Rightarrow> (stimulus \<times> stimulus list) list \<Rightarrow> mcu \<Rightarrow> mcu" where
  "run_interleaved p [] s = s"
| "run_interleaved p ((e, pending) # cs) s =
     (case loop_interleaved p e pending s of
        Sleeping \<Rightarrow> run_interleaved p cs s
      | Woken s' \<Rightarrow> run_interleaved p cs s'
      | SystemReset \<Rightarrow> run_interleaved p cs (setup_sketch p (watchdog_reset s)))"

text \<open>
  What a run has logged since a given earlier state, the pulses on a pin in a log, and the
  time in milliseconds that the delays of a log add up to.
\<close>

fun elapsed_ms :: "io list \<Rightarrow> nat" where
  "elapsed_ms [] = 0"
| "elapsed_ms (Delay ms # tr) = ms + elapsed_ms tr"
| "elapsed_ms (x # tr) = elapsed_ms tr"

definition emitted :: "mcu \<Rightarrow> mcu \<Rightarrow> io list" where
  "emitted s s' = drop (length (trace s)) (trace s')"

definition pulse :: "u8 \<Rightarrow> io list" where
  "pulse pin = [DigitalWrite pin HIGH, Delay 200, DigitalWrite pin LOW, Delay 200]"

definition signals :: "u8 \<Rightarrow> io list \<Rightarrow> nat" where
  "signals pin tr = count_list tr (DigitalWrite pin HIGH)"

section \<open>The earlier variant of the sketch\<close>

text \<open>
  The second sketch file of the repository (budget 20, INT0 on the falling edge on both
  profiles) has the same watchdog handler, on its counter \<^verbatim>\<open>watchdog_timeouts_remaining\<close>;
  the model keeps that counter in the same field. Its INT0 handler only waits.
\<close>

definition ISR_WDT_vect_part_000 :: "platform \<Rightarrow> mcu \<Rightarrow> mcu" where
  "ISR_WDT_vect_part_000 p s =
     (let s1 = s\<lparr>watchdogTimeoutsRemaining := watchdogTimeoutsRemaining s - 1\<rparr>;
          s2 = flashLED (WATCHDOG_TIMEOUT_LED_PIN p) 1 s1
      in s2\<lparr>WD_CONTROL_REG := WD_CONTROL_REG s2 OR BV WDIE\<rparr>)"

definition ISR_INT0_vect_part_000 :: "mcu \<Rightarrow> mcu" where
  "ISR_INT0_vect_part_000 s = delay 50 s"

section \<open>Invariants of the running sketch\<close>

text \<open>The interrupt configuration that \<^verbatim>\<open>setup()\<close> establishes on each profile.\<close>

fun configured :: "platform \<Rightarrow> mcu \<Rightarrow> bool" where
  "configured ATmega328P s = (EIMSK s = 1 \<and> EICRA s = 2 \<and> PCICR s = 1 \<and> PCMSK0 s = 2)"
| "configured ATtiny85 s =
     (GIMSK s = 96 \<and> PCMSK s = 8 \<and> \<not> bit (MCUCR s) ISC00 \<and> \<not> bit (MCUCR s) ISC01)"

text \<open>
  Between two calls of \<^verbatim>\<open>loop()\<close>: interrupts are enabled, the configuration stands, the
  reset-cause flag is clear, the budget is between 0 and 10, and the watchdog is armed
  (prescaler for eight seconds, WDE and WDIE set) exactly while the budget is not zero.
\<close>

definition between_loops :: "platform \<Rightarrow> mcu \<Rightarrow> bool" where
  "between_loops p s =
     (SREG_I s \<and> configured p s \<and> \<not> bit (MCUSR s) WDRF
      \<and> unat (watchdogTimeoutsRemaining s) \<le> 10
      \<and> WD_CONTROL_REG s = (if watchdogTimeoutsRemaining s = 0 then 0 else 105))"

text \<open>The state in which the periodic source is off for good.\<close>

definition exhausted :: "mcu \<Rightarrow> bool" where
  "exhausted s = (WD_CONTROL_REG s = 0 \<and> watchdogTimeoutsRemaining s = 0)"

text \<open>A handler is silent in a state when running it there logs nothing.\<close>

definition silent_at :: "(mcu \<Rightarrow> mcu) \<Rightarrow> mcu \<Rightarrow> bool" where
  "silent_at h s = (trace (h s) = trace s)"

section \<open>Basic facts about the library calls and the handlers\<close>

lemma bit_BV [simp]: "bit (BV n) m \<longleftrightarrow> m = n \<and> n < 8"
  by (auto simp: BV_def bit_simps)

lemma flashLED_1: "flashLED pin 1 s = s\<lparr>trace := trace s @ pulse pin\<rparr>"
  by (simp add: flashLED_def pulse_def digitalWrite_def delay_def)

lemma flashLED_2: "flashLED pin 2 s = s\<lparr>trace := trace s @ pulse pin @ pulse pin\<rparr>"
proof -
  have u: "unat (2 :: u8) = Suc (Suc 0)" by simp
  show ?thesis
    unfolding flashLED_def u by (simp add: pulse_def digitalWrite_def delay_def)
qed

lemma disable_watchdog_eq:
  "disable_watchdog s = s\<lparr>MCUSR := MCUSR s AND NOT (BV WDRF), WD_CONTROL_REG := 0\<rparr>"
  by (simp add: disable_watchdog_def wdt_disable_def bit_and_iff bit_not_iff)

lemma ISR_WDT_vect_eq:
  "ISR_WDT_vect p s =
     s\<lparr>watchdogTimeoutsRemaining := watchdogTimeoutsRemaining s - 1,
       trace := trace s @ pulse (WATCHDOG_TIMEOUT_LED_PIN p),
       WD_CONTROL_REG := WD_CONTROL_REG s OR BV WDIE\<rparr>"
  by (simp add: ISR_WDT_vect_def flashLED_1 Let_def)

lemma ISR_INT0_vect_eq:
  "ISR_INT0_vect p s =
     s\<lparr>trace := trace s @ pulse (WATCHDOG_TIMEOUT_LED_PIN p) @ pulse (WATCHDOG_TIMEOUT_LED_PIN p)\<rparr>"
  by (simp add: ISR_INT0_vect_def flashLED_2)

lemma ISR_PCINT0_vect_eq: "ISR_PCINT0_vect s = s\<lparr>trace := trace s @ [Delay 50]\<rparr>"
  by (simp add: ISR_PCINT0_vect_def delay_def)

text \<open>Repeated INT0 handler runs.\<close>

lemma concat_replicate_snoc: "concat (replicate (Suc n) x) = concat (replicate n x) @ x"
  by (induction n) simp_all

lemma int0_repeat:
  "(isr_call (ISR_INT0_vect p) ^^ Suc k) s =
     s\<lparr>trace := trace s @ concat (replicate (Suc k)
         (pulse (WATCHDOG_TIMEOUT_LED_PIN p) @ pulse (WATCHDOG_TIMEOUT_LED_PIN p))),
       SREG_I := True\<rparr>"
proof (induction k)
  case 0
  show ?case by (simp add: isr_call_def ISR_INT0_vect_eq)
next
  case (Suc k)
  have "(isr_call (ISR_INT0_vect p) ^^ Suc (Suc k)) s =
        isr_call (ISR_INT0_vect p) ((isr_call (ISR_INT0_vect p) ^^ Suc k) s)"
    by simp
  also have "\<dots> = s\<lparr>trace := trace s @ concat (replicate (Suc (Suc k))
         (pulse (WATCHDOG_TIMEOUT_LED_PIN p) @ pulse (WATCHDOG_TIMEOUT_LED_PIN p))),
       SREG_I := True\<rparr>"
    unfolding Suc.IH concat_replicate_snoc [of "Suc k"]
    by (simp add: isr_call_def ISR_INT0_vect_eq del: replicate_Suc replicate.simps)
  finally show ?case .
qed

section \<open>The two halves of the loop body\<close>

lemma loop_suspend_fields [simp]:
  "watchdogTimeoutsRemaining (loop_suspend p s) = watchdogTimeoutsRemaining s"
  "WD_CONTROL_REG (loop_suspend p s) = WD_CONTROL_REG s"
  "MCUSR (loop_suspend p s) = MCUSR s"
  "GIMSK (loop_suspend p s) = GIMSK s"
  "PCMSK (loop_suspend p s) = PCMSK s"
  "EIMSK (loop_suspend p s) = EIMSK s"
  "EICRA (loop_suspend p s) = EICRA s"
  "PCICR (loop_suspend p s) = PCICR s"
  "PCMSK0 (loop_suspend p s) = PCMSK0 s"
  "SREG_I (loop_suspend p s)"
  "trace (loop_suspend p s) = trace s"
  by (cases p; simp add: loop_suspend_def sei_def)+

text \<open>
  The sleep macros touch bits 3 to 5 of MCUCR on the ATtiny85 and SMCR on the ATmega328P, so
  the INT0 sense bits (bits 0 and 1 of MCUCR) survive both halves of the loop body.
\<close>

lemma loop_suspend_sense_bits [simp]:
  "n < 3 \<Longrightarrow> bit (MCUCR (loop_suspend p s)) n = bit (MCUCR s) n"
  by (cases p; auto simp add: loop_suspend_def sei_def bit_simps)

lemma sleep_disable_sense_bits [simp]:
  "n < 3 \<Longrightarrow> bit (MCUCR (sleep_disable p s)) n = bit (MCUCR s) n"
  by (cases p; auto simp add: bit_simps)


lemma loop_resume_eq:
  "loop_resume p s4 =
     (let s6 = (sleep_disable p s4)\<lparr>trace := trace s4 @ pulse (SLEEP_INTERRUPT_LED_PIN p)\<rparr>
      in if watchdogTimeoutsRemaining s4 = 0 then disable_watchdog s6 else s6)"
  by (cases p; simp add: loop_resume_def flashLED_1 Let_def)

lemma loop_resume_fields [simp]:
  "watchdogTimeoutsRemaining (loop_resume p s) = watchdogTimeoutsRemaining s"
  "WD_CONTROL_REG (loop_resume p s) =
     (if watchdogTimeoutsRemaining s = 0 then 0 else WD_CONTROL_REG s)"
  "GIMSK (loop_resume p s) = GIMSK s"
  "PCMSK (loop_resume p s) = PCMSK s"
  "EIMSK (loop_resume p s) = EIMSK s"
  "EICRA (loop_resume p s) = EICRA s"
  "PCICR (loop_resume p s) = PCICR s"
  "PCMSK0 (loop_resume p s) = PCMSK0 s"
  "SREG_I (loop_resume p s) = SREG_I s"
  "trace (loop_resume p s) = trace s @ pulse (SLEEP_INTERRUPT_LED_PIN p)"
  by (cases p; simp add: loop_resume_eq disable_watchdog_eq Let_def)+

lemma loop_resume_sense_bits [simp]:
  "n < 3 \<Longrightarrow> bit (MCUCR (loop_resume p s)) n = bit (MCUCR s) n"
  by (cases p; auto simp add: loop_resume_eq disable_watchdog_eq Let_def bit_simps)

lemma loop_resume_MCUSR [simp]:
  "bit (MCUSR (loop_resume p s)) n =
     (bit (MCUSR s) n \<and> (n = 3 \<longrightarrow> watchdogTimeoutsRemaining s \<noteq> 0))"
  by (cases p; auto simp add: loop_resume_eq disable_watchdog_eq Let_def bit_simps
        dest: bit_imp_le_length)

text \<open>What a wake by a manual input leaves alone.\<close>

lemma manual_wake_frame:
  assumes "sleep_cpu p e s = Woken s4" and "e \<noteq> WdtTimeout"
  shows "watchdogTimeoutsRemaining s4 = watchdogTimeoutsRemaining s"
    and "WD_CONTROL_REG s4 = WD_CONTROL_REG s"
    and "MCUSR s4 = MCUSR s" and "MCUCR s4 = MCUCR s"
    and "GIMSK s4 = GIMSK s" and "PCMSK s4 = PCMSK s" and "EIMSK s4 = EIMSK s"
    and "EICRA s4 = EICRA s" and "PCICR s4 = PCICR s" and "PCMSK0 s4 = PCMSK0 s"
    and "SREG_I s4"
  using assms
  by (cases e; auto simp: isr_call_def ISR_INT0_vect_eq ISR_PCINT0_vect_eq int0_repeat
        simp del: funpow.simps split: if_splits sense.splits)+

lemma rearm_after_take: "(w AND NOT (BV n)) OR BV n = w OR BV n"
  by (rule bit_eqI) (auto simp: bit_simps)

lemma watchdog_wake:
  "sleep_cpu p WdtTimeout s =
     (if bit (WD_CONTROL_REG s) WDIE
      then (if SREG_I s
            then Woken (s\<lparr>watchdogTimeoutsRemaining := watchdogTimeoutsRemaining s - 1,
                   trace := trace s @ pulse (WATCHDOG_TIMEOUT_LED_PIN p),
                   WD_CONTROL_REG := WD_CONTROL_REG s OR BV WDIE,
                   SREG_I := True\<rparr>)
            else Sleeping)
      else if bit (WD_CONTROL_REG s) WDE then SystemReset else Sleeping)"
  by (simp add: isr_call_def ISR_WDT_vect_eq wdt_take_def rearm_after_take)

section \<open>Once the watchdog is off it stays off\<close>



lemma exhausted_idle: "exhausted s \<Longrightarrow> run p (replicate n WdtTimeout) s = s"
  by (induction n) (simp_all add: loop_def exhausted_def watchdog_wake)

section \<open>The state after \<open>setup\<close>\<close>

lemma setup_sketch_fields:
  "watchdogTimeoutsRemaining (setup_sketch p s) = watchdogTimeoutsRemaining s"
  "WD_CONTROL_REG (setup_sketch p s) = 105"
  "MCUSR (setup_sketch p s) = MCUSR s AND NOT (BV WDRF)"
  "SREG_I (setup_sketch p s)"
  "trace (setup_sketch p s) = trace s @
     [PinMode (WATCHDOG_TIMEOUT_LED_PIN p) OUTPUT, PinMode (SLEEP_INTERRUPT_LED_PIN p) OUTPUT,
      PinMode (INT0_PIN p) INPUT, DigitalWrite (INT0_PIN p) HIGH,
      PinMode (PCINT0_PIN p) INPUT, DigitalWrite (PCINT0_PIN p) HIGH,
      DigitalWrite (WATCHDOG_TIMEOUT_LED_PIN p) HIGH, Delay 1000,
      DigitalWrite (WATCHDOG_TIMEOUT_LED_PIN p) LOW,
      DigitalWrite (SLEEP_INTERRUPT_LED_PIN p) HIGH, Delay 1000,
      DigitalWrite (SLEEP_INTERRUPT_LED_PIN p) LOW]"
  by (cases p; simp add: setup_sketch_def disable_watchdog_eq wdt_enable_def pinMode_def
        digitalWrite_def delay_def turnOnLED_def configInputWithPullup_def sei_def BV_def)+

lemma boot_between_loops: "between_loops p (boot p)"
  by (cases p; simp add: between_loops_def boot_def setup_sketch_def power_on_def
        disable_watchdog_eq wdt_enable_def pinMode_def digitalWrite_def delay_def turnOnLED_def
        configInputWithPullup_def sei_def BV_def)

section \<open>The invariant between two calls of the loop body\<close>

lemma bit_105 [simp]: "bit (105 :: u8) 6" "bit (105 :: u8) 3" "(105 :: u8) OR BV 6 = 105"
  by (simp_all add: BV_def)

lemma unat_pred: "w \<noteq> 0 \<Longrightarrow> unat (w - 1 :: u8) = unat w - 1"
  by (simp add: unat_minus_one)

lemma between_loops_watchdog:
  assumes "between_loops p s" and "watchdogTimeoutsRemaining s \<noteq> 0"
  shows "loop p WdtTimeout s =
           Woken (loop_resume p
             ((loop_suspend p s)\<lparr>watchdogTimeoutsRemaining := watchdogTimeoutsRemaining s - 1,
                trace := trace s @ pulse (WATCHDOG_TIMEOUT_LED_PIN p),
                WD_CONTROL_REG := 105, SREG_I := True\<rparr>))"
proof -
  from assms have "WD_CONTROL_REG (loop_suspend p s) = 105" "SREG_I (loop_suspend p s)"
    by (simp_all add: between_loops_def)
  then have "sleep_cpu p WdtTimeout (loop_suspend p s) =
    Woken ((loop_suspend p s)\<lparr>watchdogTimeoutsRemaining := watchdogTimeoutsRemaining s - 1,
                trace := trace s @ pulse (WATCHDOG_TIMEOUT_LED_PIN p),
                WD_CONTROL_REG := 105, SREG_I := True\<rparr>)"
    unfolding watchdog_wake by simp
  then show ?thesis unfolding loop_def by simp
qed

lemma configured_frame:
  assumes "configured p s"
    and "GIMSK s' = GIMSK s" "PCMSK s' = PCMSK s" "EIMSK s' = EIMSK s" "EICRA s' = EICRA s"
    and "PCICR s' = PCICR s" "PCMSK0 s' = PCMSK0 s"
    and "bit (MCUCR s') ISC00 = bit (MCUCR s) ISC00" "bit (MCUCR s') ISC01 = bit (MCUCR s) ISC01"
  shows "configured p s'"
  using assms by (cases p) simp_all



lemma between_loops_loop:
  assumes inv: "between_loops p s"
  shows "loop p e s = Sleeping \<or> (\<exists>s'. loop p e s = Woken s' \<and> between_loops p s')"
proof -
  from inv have conf: "configured p s" by (simp add: between_loops_def)
  show ?thesis
  proof (cases "e = WdtTimeout")
    case True
    show ?thesis
    proof (cases "watchdogTimeoutsRemaining s = 0")
      case True
      with inv have "sleep_cpu p WdtTimeout (loop_suspend p s) = Sleeping"
        unfolding watchdog_wake by (simp add: between_loops_def)
      with \<open>e = WdtTimeout\<close> show ?thesis by (simp add: loop_def)
    next
      case False
      let ?s4 = "(loop_suspend p s)\<lparr>watchdogTimeoutsRemaining := watchdogTimeoutsRemaining s - 1,
                  trace := trace s @ pulse (WATCHDOG_TIMEOUT_LED_PIN p),
                  WD_CONTROL_REG := 105, SREG_I := True\<rparr>"
      have "configured p (loop_resume p ?s4)"
        by (rule configured_frame [OF conf]) simp_all
      moreover have "unat (watchdogTimeoutsRemaining s - 1) \<le> 10"
        using inv False by (auto simp: between_loops_def unat_pred)
      ultimately have "between_loops p (loop_resume p ?s4)"
        using inv by (simp add: between_loops_def)
      with between_loops_watchdog [OF inv False] True show ?thesis by simp
    qed
  next
    case False
    show ?thesis
    proof (cases "sleep_cpu p e (loop_suspend p s)")
      case Sleeping
      then show ?thesis by (simp add: loop_def)
    next
      case (Woken s4)
      note fr = manual_wake_frame [OF Woken False]
      have "configured p (loop_resume p s4)"
        by (rule configured_frame [OF conf]) (simp_all add: fr)
      then have "between_loops p (loop_resume p s4)"
        using inv by (simp add: between_loops_def fr)
      with Woken show ?thesis by (simp add: loop_def)
    next
      case SystemReset
      with False show ?thesis by (cases e) (simp_all split: if_splits sense.splits)
    qed
  qed
qed

lemma between_loops_run: "between_loops p s \<Longrightarrow> between_loops p (run p es s)"
proof (induction es arbitrary: s)
  case Nil
  then show ?case by simp
next
  case (Cons e es)
  from between_loops_loop [OF Cons.prems, of e] show ?case
  proof
    assume "loop p e s = Sleeping"
    then show ?thesis using Cons.IH [OF Cons.prems] by simp
  next
    assume "\<exists>s'. loop p e s = Woken s' \<and> between_loops p s'"
    then obtain s' where "loop p e s = Woken s'" and "between_loops p s'" by blast
    then show ?thesis using Cons.IH [of s'] by simp
  qed
qed

lemma reachable_between_loops: "between_loops p (run p es (boot p))"
  by (rule between_loops_run) (rule boot_between_loops)

section \<open>Counting down the budget\<close>

lemma sint_small: 
  assumes "unat (w :: 8 word) \<le> 10" shows "0 \<le> sint w \<and> sint w \<le> 10"
proof -
  from assms have "int (unat w) \<le> 10" by linarith
  then have u: "uint w \<le> 10" by simp
  have u0: "- 128 \<le> uint w" by (rule order_trans [of _ 0]) simp_all
  have "sint w = signed_take_bit 7 (uint w)" by (simp add: sint_uint)
  also have "\<dots> = uint w" 
    by (rule signed_take_bit_int_eq_self) (use u u0 in simp_all)
  finally show ?thesis using u by simp
qed

lemma signals_concat_replicate:
  "signals pin (concat (replicate n x)) = n * signals pin x"
  by (induction n) (simp_all add: signals_def)

lemma signals_append [simp]: "signals pin (xs @ ys) = signals pin xs + signals pin ys"
  by (simp add: signals_def)

lemma signals_pulse [simp]: "signals pin (pulse q) = (if q = pin then 1 else 0)"
  by (simp add: signals_def pulse_def)

lemma led_pins_differ [simp]:
  "WATCHDOG_TIMEOUT_LED_PIN p \<noteq> SLEEP_INTERRUPT_LED_PIN p"
  "SLEEP_INTERRUPT_LED_PIN p \<noteq> WATCHDOG_TIMEOUT_LED_PIN p"
  by (cases p; simp)+

lemma emitted_append [simp]: "trace s' = trace s @ t \<Longrightarrow> emitted s s' = t"
  by (simp add: emitted_def)

text \<open>One watchdog wake cycle while the budget lasts.\<close>

lemma watchdog_cycle:
  assumes "between_loops p s" and "watchdogTimeoutsRemaining s \<noteq> 0"
  obtains s' where "loop p WdtTimeout s = Woken s'"
    and "trace s' = trace s @ pulse (WATCHDOG_TIMEOUT_LED_PIN p) @ pulse (SLEEP_INTERRUPT_LED_PIN p)"
    and "watchdogTimeoutsRemaining s' = watchdogTimeoutsRemaining s - 1"
    and "between_loops p s'"
proof -
  let ?s' = "loop_resume p
             ((loop_suspend p s)\<lparr>watchdogTimeoutsRemaining := watchdogTimeoutsRemaining s - 1,
                trace := trace s @ pulse (WATCHDOG_TIMEOUT_LED_PIN p),
                WD_CONTROL_REG := 105, SREG_I := True\<rparr>)"
  have w: "loop p WdtTimeout s = Woken ?s'" by (rule between_loops_watchdog [OF assms])
  moreover have "between_loops p ?s'"
    using between_loops_loop [OF assms(1), of WdtTimeout] w by simp
  ultimately show thesis by (intro that [of ?s']) simp_all
qed

lemma idle_countdown:
  assumes "between_loops p s" and "unat (watchdogTimeoutsRemaining s) = k"
  shows "trace (run p (replicate (k + n) WdtTimeout) s) =
           trace s @ concat (replicate k
             (pulse (WATCHDOG_TIMEOUT_LED_PIN p) @ pulse (SLEEP_INTERRUPT_LED_PIN p)))"
  using assms
proof (induction k arbitrary: s)
  case 0
  then have "exhausted s" by (simp add: between_loops_def exhausted_def unat_eq_0)
  then show ?case by (simp add: exhausted_idle)
next
  case (Suc k)
  then have nz: "watchdogTimeoutsRemaining s \<noteq> 0" by auto
  from watchdog_cycle [OF Suc.prems(1) nz] obtain s' where
    s': "loop p WdtTimeout s = Woken s'"
      "trace s' = trace s @ pulse (WATCHDOG_TIMEOUT_LED_PIN p) @ pulse (SLEEP_INTERRUPT_LED_PIN p)"
      "watchdogTimeoutsRemaining s' = watchdogTimeoutsRemaining s - 1"
      "between_loops p s'"
    by blast
  from s'(3) nz Suc.prems(2) have "unat (watchdogTimeoutsRemaining s') = k"
    by (simp add: unat_pred)
  from Suc.IH [OF s'(4) this] s'(1,2) show ?case by simp
qed


lemma idle_budget:
  assumes "between_loops p s" and "k \<le> unat (watchdogTimeoutsRemaining s)"
  shows "between_loops p (run p (replicate k WdtTimeout) s)
       \<and> unat (watchdogTimeoutsRemaining (run p (replicate k WdtTimeout) s))
           = unat (watchdogTimeoutsRemaining s) - k"
  using assms
proof (induction k arbitrary: s)
  case 0
  then show ?case by simp
next
  case (Suc k)
  then have nz: "watchdogTimeoutsRemaining s \<noteq> 0" by auto
  from watchdog_cycle [OF Suc.prems(1) nz] obtain s' where
    s': "loop p WdtTimeout s = Woken s'"
      "watchdogTimeoutsRemaining s' = watchdogTimeoutsRemaining s - 1"
      "between_loops p s'"
    by blast
  from s'(2) nz Suc.prems(2) have u: "unat (watchdogTimeoutsRemaining s') = unat (watchdogTimeoutsRemaining s) - 1"
    by (simp add: unat_pred)
  with Suc.prems(2) have "k \<le> unat (watchdogTimeoutsRemaining s')" by simp
  from Suc.IH [OF s'(3) this] s'(1) u show ?case by simp
qed




text \<open>
  Claim C5. The literal scenario: budget 10, watchdog period of eight seconds
  (\<^verbatim>\<open>WDTO_8S\<close>), no manual input. Eighty seconds are ten watchdog periods. After ten or more
  periods (\<open>10 + n\<close> for any \<open>n\<close>) the sketch has logged, since the end of \<^verbatim>\<open>setup()\<close>,
  exactly ten times a pulse of the watchdog LED followed by a pulse of the sleep-interrupt
  LED: ten signals on each channel, and none more however long the run lasts.
\<close>

theorem idle_scenario:
  "emitted (boot p) (run p (replicate (10 + n) WdtTimeout) (boot p)) =
     concat (replicate 10
       (pulse (WATCHDOG_TIMEOUT_LED_PIN p) @ pulse (SLEEP_INTERRUPT_LED_PIN p)))
   \<and> signals (WATCHDOG_TIMEOUT_LED_PIN p)
         (emitted (boot p) (run p (replicate (10 + n) WdtTimeout) (boot p))) = 10
   \<and> signals (SLEEP_INTERRUPT_LED_PIN p)
         (emitted (boot p) (run p (replicate (10 + n) WdtTimeout) (boot p))) = 10"
proof -
  have "unat (watchdogTimeoutsRemaining (boot p)) = 10"
    by (simp add: boot_def setup_sketch_fields power_on_def)
  from idle_countdown [OF boot_between_loops this, of n]
  have e: "emitted (boot p) (run p (replicate (10 + n) WdtTimeout) (boot p)) =
     concat (replicate 10
       (pulse (WATCHDOG_TIMEOUT_LED_PIN p) @ pulse (SLEEP_INTERRUPT_LED_PIN p)))"
    by (rule emitted_append)
  show ?thesis unfolding e by (simp add: signals_concat_replicate)
qed

text \<open>
  Under the schedule of \<open>run\<close>, where every handler run is followed by the check of the loop
  body before the next stimulus is served, the budget read as a signed number stays between 0
  and 10, also right after a handler has returned. The source does not enforce that schedule;
  the last section shows what happens without it.
\<close>

lemma alternating_budget_bounds:
  "0 \<le> sint (watchdogTimeoutsRemaining (run p es (boot p)))
   \<and> sint (watchdogTimeoutsRemaining (run p es (boot p))) \<le> 10
   \<and> (sleep_cpu p e (loop_suspend p (run p es (boot p))) = Woken s4
        \<longrightarrow> 0 \<le> sint (watchdogTimeoutsRemaining s4))"
proof -
  let ?s = "run p es (boot p)"
  have inv: "between_loops p ?s" by (rule reachable_between_loops)
  then have b: "unat (watchdogTimeoutsRemaining ?s) \<le> 10" by (simp add: between_loops_def)
  have "0 \<le> sint (watchdogTimeoutsRemaining s4)"
    if w: "sleep_cpu p e (loop_suspend p ?s) = Woken s4"
  proof (cases "e = WdtTimeout")
    case True
    with w have "watchdogTimeoutsRemaining ?s \<noteq> 0
        \<and> watchdogTimeoutsRemaining s4 = watchdogTimeoutsRemaining ?s - 1"
      using inv unfolding True watchdog_wake
      by (auto simp: between_loops_def split: if_splits)
    with b have "unat (watchdogTimeoutsRemaining s4) \<le> 10" by (simp add: unat_pred)
    then show ?thesis using sint_small by blast
  next
    case False
    from manual_wake_frame(1) [OF w False] b
    have "unat (watchdogTimeoutsRemaining s4) \<le> 10" by simp
    then show ?thesis using sint_small by blast
  qed
  with sint_small [OF b] show ?thesis by blast
qed

section \<open>The watchdog handler\<close>

lemma sint_pred:
  assumes "sint (w :: 8 word) \<noteq> - 128" shows "sint (w - 1) = sint w - 1"
proof -
  have lo: "- 128 \<le> sint w" using sint_ge [of w] by simp
  have hi: "sint w < 128" using sint_lt [of w] by simp
  have "sint (w - 1) = signed_take_bit 7 (sint w - sint (1 :: 8 word))"
    by (simp add: sint_word_ariths)
  also have "\<dots> = signed_take_bit 7 (sint w - 1)" by simp
  also have "\<dots> = sint w - 1"
    by (rule signed_take_bit_int_eq_self) (use lo hi assms in simp_all)
  finally show ?thesis .
qed

text \<open>
  Claim C2. In any state, the watchdog handler (in both sketch files) takes exactly one off
  the budget and leaves the interrupt-enable bit WDIE set when it returns. The subtraction
  is that of an 8-bit counter; read as a signed number the budget goes down by one unless it
  stood at -128. When a watchdog time-out wakes the processor, the state in which
  \<^verbatim>\<open>sleep_cpu()\<close> returns, before the rest of the loop body has run, already has the
  decremented budget and WDIE set again.
\<close>

theorem wdt_isr_decrements_and_rearms:
  "watchdogTimeoutsRemaining (ISR_WDT_vect p s) = watchdogTimeoutsRemaining s - 1
   \<and> bit (WD_CONTROL_REG (ISR_WDT_vect p s)) WDIE
   \<and> watchdogTimeoutsRemaining (ISR_WDT_vect_part_000 p s) = watchdogTimeoutsRemaining s - 1
   \<and> bit (WD_CONTROL_REG (ISR_WDT_vect_part_000 p s)) WDIE
   \<and> (sint (watchdogTimeoutsRemaining s) \<noteq> - 128 \<longrightarrow>
        sint (watchdogTimeoutsRemaining (ISR_WDT_vect p s))
          = sint (watchdogTimeoutsRemaining s) - 1)
   \<and> (sleep_cpu p WdtTimeout s = Woken s4 \<longrightarrow>
        watchdogTimeoutsRemaining s4 = watchdogTimeoutsRemaining s - 1
        \<and> bit (WD_CONTROL_REG s4) WDIE)"
proof -
  have same: "ISR_WDT_vect_part_000 p s = ISR_WDT_vect p s"
    by (simp add: ISR_WDT_vect_part_000_def ISR_WDT_vect_def)
  have wake: "watchdogTimeoutsRemaining s4 = watchdogTimeoutsRemaining s - 1
        \<and> bit (WD_CONTROL_REG s4) WDIE" if "sleep_cpu p WdtTimeout s = Woken s4"
    using that unfolding watchdog_wake by (auto simp: bit_simps split: if_splits)
  show ?thesis
    unfolding same using sint_pred wake by (simp add: ISR_WDT_vect_eq bit_simps)
qed

lemma boot_budget: "watchdogTimeoutsRemaining (boot p) = 10"
  by (simp add: boot_def setup_sketch_fields power_on_def)

text \<open>
  An instance: the first time-out after \<^verbatim>\<open>setup()\<close> on the ATtiny85. The hardware has
  cleared WDIE when the handler starts; the handler sets it again.
\<close>

theorem wdt_isr_decrements_and_rearms_witness:
  "sint (watchdogTimeoutsRemaining (boot ATtiny85)) \<noteq> - 128
   \<and> sint (watchdogTimeoutsRemaining (ISR_WDT_vect ATtiny85 (boot ATtiny85))) = 9
   \<and> sleep_cpu ATtiny85 WdtTimeout (boot ATtiny85)
       = Woken (isr_call (ISR_WDT_vect ATtiny85) (wdt_take (boot ATtiny85)))
   \<and> \<not> bit (WD_CONTROL_REG (wdt_take (boot ATtiny85))) WDIE
   \<and> bit (WD_CONTROL_REG (isr_call (ISR_WDT_vect ATtiny85) (wdt_take (boot ATtiny85)))) WDIE"
proof -
  have h1: "sint (watchdogTimeoutsRemaining (boot ATtiny85)) \<noteq> - 128"
    by (simp add: boot_budget)
  have h2: "sleep_cpu ATtiny85 WdtTimeout (boot ATtiny85)
       = Woken (isr_call (ISR_WDT_vect ATtiny85) (wdt_take (boot ATtiny85)))"
    by (simp add: boot_def setup_sketch_fields)
  have h3: "\<not> bit (WD_CONTROL_REG (wdt_take (boot ATtiny85))) WDIE"
    by (simp add: wdt_take_def boot_def setup_sketch_fields bit_simps)
  from wdt_isr_decrements_and_rearms
    [of ATtiny85 "boot ATtiny85" "isr_call (ISR_WDT_vect ATtiny85) (wdt_take (boot ATtiny85))"]
    h1 h2 h3
  show ?thesis by (simp add: boot_budget)
qed

section \<open>Disabling the watchdog\<close>

text \<open>
  Claim C6. Calling \<^verbatim>\<open>disable_watchdog()\<close> twice leaves the same state as calling it once;
  after a call the reset-cause flag WDRF is clear and the watchdog control register is 0 in
  every case, nothing is logged and the budget is untouched. The order inside the call
  matters: had the watchdog been turned off while WDRF was still set, it would have stayed on.
\<close>

theorem disable_watchdog_idempotent:
  "disable_watchdog (disable_watchdog s) = disable_watchdog s
   \<and> \<not> bit (MCUSR (disable_watchdog s)) WDRF
   \<and> WD_CONTROL_REG (disable_watchdog s) = 0
   \<and> trace (disable_watchdog s) = trace s
   \<and> watchdogTimeoutsRemaining (disable_watchdog s) = watchdogTimeoutsRemaining s
   \<and> (bit (MCUSR s) WDRF \<longrightarrow> WD_CONTROL_REG (wdt_disable s) = BV WDE)"
  by (simp add: disable_watchdog_eq wdt_disable_def bit_simps)

text \<open>An instance: the state right after a watchdog reset, where WDRF is set.\<close>

theorem disable_watchdog_idempotent_witness:
  "bit (MCUSR (watchdog_reset power_on)) WDRF
   \<and> WD_CONTROL_REG (wdt_disable (watchdog_reset power_on)) = BV WDE
   \<and> WD_CONTROL_REG (disable_watchdog (watchdog_reset power_on)) = 0
   \<and> disable_watchdog (disable_watchdog (watchdog_reset power_on))
       = disable_watchdog (watchdog_reset power_on)"
proof -
  have h: "bit (MCUSR (watchdog_reset power_on)) WDRF"
    by (simp add: watchdog_reset_def bit_simps)
  from disable_watchdog_idempotent [of "watchdog_reset power_on"] h show ?thesis by simp
qed

section \<open>What the handlers do\<close>

text \<open>
  Claim C7 says that no handler contains a delay or a signalling call, that is, that no
  handler logs anything. On the ATtiny85 it fails for each of the three handlers already in
  the power-on state: the watchdog handler flashes the watchdog LED once, the INT0 handler
  flashes it twice, the pin-change handler waits 50 ms.
\<close>

theorem handlers_not_minimal_counterexample:
  "\<not> silent_at (ISR_WDT_vect ATtiny85) power_on
   \<and> \<not> silent_at (ISR_INT0_vect ATtiny85) power_on
   \<and> \<not> silent_at ISR_PCINT0_vect power_on
   \<and> trace (ISR_WDT_vect ATtiny85 power_on)
     = [DigitalWrite 0 HIGH, Delay 200, DigitalWrite 0 LOW, Delay 200]
   \<and> trace (ISR_INT0_vect ATtiny85 power_on)
     = [DigitalWrite 0 HIGH, Delay 200, DigitalWrite 0 LOW, Delay 200,
        DigitalWrite 0 HIGH, Delay 200, DigitalWrite 0 LOW, Delay 200]
   \<and> trace (ISR_PCINT0_vect power_on) = [Delay 50]"
  by (simp add: silent_at_def ISR_WDT_vect_eq ISR_INT0_vect_eq ISR_PCINT0_vect_eq pulse_def
        power_on_def)

text \<open>
  Claim C7, amended. Each handler does a fixed, short piece of work and nothing else: on
  either profile the watchdog handler takes one off the budget, pulses the watchdog LED once
  (two waits of 200 ms) and sets WDIE; on the ATtiny85, where INT0 is level-triggered, the
  INT0 handler pulses the watchdog LED twice and changes no other part of the state; the
  pin-change handler makes no signalling call and changes no other part of the state, but
  waits 50 ms. What the INT0 handler does on the edge-triggered ATmega328P is left out here.
\<close>

theorem handlers_work:
  "ISR_WDT_vect p s =
     s\<lparr>watchdogTimeoutsRemaining := watchdogTimeoutsRemaining s - 1,
       trace := trace s @ pulse (WATCHDOG_TIMEOUT_LED_PIN p),
       WD_CONTROL_REG := WD_CONTROL_REG s OR BV WDIE\<rparr>
   \<and> ISR_INT0_vect ATtiny85 s =
     s\<lparr>trace := trace s @ pulse (WATCHDOG_TIMEOUT_LED_PIN ATtiny85)
               @ pulse (WATCHDOG_TIMEOUT_LED_PIN ATtiny85)\<rparr>
   \<and> ISR_PCINT0_vect s = s\<lparr>trace := trace s @ [Delay 50]\<rparr>"
  using ISR_WDT_vect_eq [of p s] ISR_INT0_vect_eq [of ATtiny85 s] ISR_PCINT0_vect_eq [of s]
  by (simp del: WATCHDOG_TIMEOUT_LED_PIN.simps)

section \<open>Wake cycles of the manual inputs\<close>

lemma int0_sense_loop_suspend [simp]: "int0_sense p (loop_suspend p s) = int0_sense p s"
  by (cases p) (simp_all add: int0_sense_def Let_def)

lemma int0_enabled_loop_suspend [simp]: "int0_enabled p (loop_suspend p s) = int0_enabled p s"
  by (cases p) simp_all

lemma pcint0_enabled_loop_suspend [simp]:
  "pcint0_enabled p pin (loop_suspend p s) = pcint0_enabled p pin s"
  by (cases p) simp_all

lemma configured_sense:
  "configured p s \<Longrightarrow> int0_enabled p s
     \<and> int0_sense p s = (case p of ATmega328P \<Rightarrow> FallingEdge | ATtiny85 \<Rightarrow> LowLevel)"
  by (cases p) (simp_all add: int0_sense_def Let_def)

lemma configured_switch:
  "configured p s \<Longrightarrow> pcint0_enabled p (PCINT0_PIN p) s = (p = ATtiny85)"
  by (cases p) simp_all

text \<open>The wake cycles of the manual inputs in a configured state.\<close>

lemma int0_falling_cycle:
  assumes "configured ATmega328P s"
  shows "loop ATmega328P (Int0Low k) s =
     Woken (loop_resume ATmega328P ((loop_suspend ATmega328P s)
       \<lparr>trace := trace s @ pulse (WATCHDOG_TIMEOUT_LED_PIN ATmega328P)
                          @ pulse (WATCHDOG_TIMEOUT_LED_PIN ATmega328P),
         SREG_I := True\<rparr>))"
  using configured_sense [OF assms]
  by (simp add: loop_def isr_call_def ISR_INT0_vect_eq)

lemma int0_high_cycle: "configured p s \<Longrightarrow> loop p Int0High s = Sleeping"
  using configured_sense [of p s] by (cases p) (simp_all add: loop_def)

lemma pin_change_cycle:
  assumes "configured p s"
  shows "loop p (PinChange (PCINT0_PIN p)) s =
     (case p of
        ATmega328P \<Rightarrow> Sleeping
      | ATtiny85 \<Rightarrow> Woken (loop_resume p ((loop_suspend p s)
          \<lparr>trace := trace s @ [Delay 50], SREG_I := True\<rparr>)))"
  using configured_switch [OF assms]
  by (cases p) (simp_all add: loop_def isr_call_def ISR_PCINT0_vect_eq)

lemma reachable_configured: "configured p (run p es (boot p))"
  using reachable_between_loops [of p es] by (simp add: between_loops_def)

text \<open>
  Claim C9. On the ATtiny85, in every state reached from power-on, INT0 is sensed by level.
  When the input is pulled low and found still low at \<open>k\<close> further handler returns, the
  handler runs \<open>Suc k\<close> times in a row before \<^verbatim>\<open>sleep_cpu()\<close> returns: at that point the log
  holds \<open>Suc k\<close> double pulses of the watchdog LED and nothing from the main context. Only
  then does the loop body go on and log its one pulse of the sleep-interrupt LED. The return
  of the input to the high level wakes nothing by itself.
\<close>

theorem level_triggered_hold:
  "int0_sense ATtiny85 (run ATtiny85 es (boot ATtiny85)) = LowLevel
   \<and> (\<exists>s4 s'. sleep_cpu ATtiny85 (Int0Low k) (loop_suspend ATtiny85 (run ATtiny85 es (boot ATtiny85)))
                 = Woken s4
         \<and> emitted (run ATtiny85 es (boot ATtiny85)) s4 =
             concat (replicate (Suc k) (pulse (WATCHDOG_TIMEOUT_LED_PIN ATtiny85)
                                       @ pulse (WATCHDOG_TIMEOUT_LED_PIN ATtiny85)))
         \<and> loop ATtiny85 (Int0Low k) (run ATtiny85 es (boot ATtiny85)) = Woken s'
         \<and> emitted (run ATtiny85 es (boot ATtiny85)) s' =
             concat (replicate (Suc k) (pulse (WATCHDOG_TIMEOUT_LED_PIN ATtiny85)
                                       @ pulse (WATCHDOG_TIMEOUT_LED_PIN ATtiny85)))
             @ pulse (SLEEP_INTERRUPT_LED_PIN ATtiny85))
   \<and> loop ATtiny85 Int0High (run ATtiny85 es (boot ATtiny85)) = Sleeping"
proof -
  let ?s = "run ATtiny85 es (boot ATtiny85)"
  let ?h = "concat (replicate (Suc k) (pulse (WATCHDOG_TIMEOUT_LED_PIN ATtiny85)
                                       @ pulse (WATCHDOG_TIMEOUT_LED_PIN ATtiny85)))"
  let ?s4 = "(loop_suspend ATtiny85 ?s)\<lparr>trace := trace ?s @ ?h, SREG_I := True\<rparr>"
  have c: "configured ATtiny85 ?s" by (rule reachable_configured)
  from configured_sense [OF c] have sense: "int0_enabled ATtiny85 ?s" "int0_sense ATtiny85 ?s = LowLevel"
    by simp_all
  have w: "sleep_cpu ATtiny85 (Int0Low k) (loop_suspend ATtiny85 ?s) = Woken ?s4"
    using sense by (simp add: int0_repeat del: funpow.simps replicate.simps)
  have l: "loop ATtiny85 (Int0Low k) ?s = Woken (loop_resume ATtiny85 ?s4)"
    using w by (simp add: loop_def)
  have e4: "emitted ?s ?s4 = ?h" by (rule emitted_append) simp
  have e': "emitted ?s (loop_resume ATtiny85 ?s4) = ?h @ pulse (SLEEP_INTERRUPT_LED_PIN ATtiny85)"
    by (rule emitted_append) simp
  from sense(2) w e4 l e' int0_high_cycle [OF c] show ?thesis by blast
qed

section \<open>Signals per wake cycle\<close>

lemma signals_Nil [simp]: "signals pin [] = 0"
  by (simp add: signals_def)

lemma signals_Delay [simp]: "signals pin [Delay n] = 0"
  by (simp add: signals_def)



section \<open>Concrete runs\<close>

lemma boot_trace:
  "trace (boot p) =
     [PinMode (WATCHDOG_TIMEOUT_LED_PIN p) OUTPUT, PinMode (SLEEP_INTERRUPT_LED_PIN p) OUTPUT,
      PinMode (INT0_PIN p) INPUT, DigitalWrite (INT0_PIN p) HIGH,
      PinMode (PCINT0_PIN p) INPUT, DigitalWrite (PCINT0_PIN p) HIGH,
      DigitalWrite (WATCHDOG_TIMEOUT_LED_PIN p) HIGH, Delay 1000,
      DigitalWrite (WATCHDOG_TIMEOUT_LED_PIN p) LOW,
      DigitalWrite (SLEEP_INTERRUPT_LED_PIN p) HIGH, Delay 1000,
      DigitalWrite (SLEEP_INTERRUPT_LED_PIN p) LOW]"
  by (simp add: boot_def setup_sketch_fields power_on_def)

lemma boot_configured: "configured p (boot p)"
  using boot_between_loops [of p] by (simp add: between_loops_def)



lemma falling_edge_press:
  assumes "between_loops ATmega328P s"
  shows "trace (run ATmega328P [Int0Low k, Int0High] s) =
           trace s @ pulse (WATCHDOG_TIMEOUT_LED_PIN ATmega328P)
                   @ pulse (WATCHDOG_TIMEOUT_LED_PIN ATmega328P)
                   @ pulse (SLEEP_INTERRUPT_LED_PIN ATmega328P)"
proof -
  from assms have c: "configured ATmega328P s" by (simp add: between_loops_def)
  let ?s1 = "loop_resume ATmega328P ((loop_suspend ATmega328P s)
       \<lparr>trace := trace s @ pulse (WATCHDOG_TIMEOUT_LED_PIN ATmega328P)
                          @ pulse (WATCHDOG_TIMEOUT_LED_PIN ATmega328P),
         SREG_I := True\<rparr>)"
  have l: "loop ATmega328P (Int0Low k) s = Woken ?s1" by (rule int0_falling_cycle [OF c])
  with between_loops_loop [OF assms, of "Int0Low k"] have "between_loops ATmega328P ?s1"
    by simp
  then have "configured ATmega328P ?s1" by (simp add: between_loops_def)
  then have "loop ATmega328P Int0High ?s1 = Sleeping" by (rule int0_high_cycle)
  with l show ?thesis by simp
qed

text \<open>
  The INT0 handler of the earlier sketch file only waits: it logs no LED write.
\<close>

lemma earlier_int0_handler_only_waits:
  "ISR_INT0_vect_part_000 s = s\<lparr>trace := trace s @ [Delay 50]\<rparr>"
  by (simp add: ISR_INT0_vect_part_000_def delay_def)

text \<open>
  Claim C8 at its failing input. On the ATmega328P, where \<^verbatim>\<open>configInt0()\<close> selects the
  falling edge, one press and release of the INT0 switch right after \<^verbatim>\<open>setup()\<close> gives one
  wake and one pulse of the sleep-interrupt LED, as claimed, but also two pulses of the
  watchdog LED from the INT0 handler, where the claim says none.
\<close>

theorem edge_press_pulses_watchdog_led:
  "emitted (boot ATmega328P) (run ATmega328P [Int0Low 0, Int0High] (boot ATmega328P))
     = [DigitalWrite 13 HIGH, Delay 200, DigitalWrite 13 LOW, Delay 200,
        DigitalWrite 13 HIGH, Delay 200, DigitalWrite 13 LOW, Delay 200,
        DigitalWrite 12 HIGH, Delay 200, DigitalWrite 12 LOW, Delay 200]
   \<and> signals (SLEEP_INTERRUPT_LED_PIN ATmega328P)
         (emitted (boot ATmega328P) (run ATmega328P [Int0Low 0, Int0High] (boot ATmega328P))) = 1
   \<and> signals (WATCHDOG_TIMEOUT_LED_PIN ATmega328P)
         (emitted (boot ATmega328P) (run ATmega328P [Int0Low 0, Int0High] (boot ATmega328P))) = 2
   \<and> int0_sense ATmega328P (boot ATmega328P) = FallingEdge"
proof -
  have e: "emitted (boot ATmega328P) (run ATmega328P [Int0Low 0, Int0High] (boot ATmega328P))
     = pulse (WATCHDOG_TIMEOUT_LED_PIN ATmega328P) @ pulse (WATCHDOG_TIMEOUT_LED_PIN ATmega328P)
       @ pulse (SLEEP_INTERRUPT_LED_PIN ATmega328P)"
    by (rule emitted_append) (rule falling_edge_press [OF boot_between_loops])
  show ?thesis unfolding e using configured_sense [OF boot_configured, of ATmega328P]
    by (simp add: pulse_def signals_def)
qed

text \<open>
  On the ATtiny85 the switch pin and the mask bit agree, and a press and release give two wake
  cycles, each with its 50 ms wait and its pulse of the sleep-interrupt LED.
\<close>

lemma pin_change_press_release_attiny:
  assumes "between_loops ATtiny85 s"
  shows "trace (run ATtiny85 [PinChange (PCINT0_PIN ATtiny85), PinChange (PCINT0_PIN ATtiny85)] s)
          = trace s @ [Delay 50] @ pulse (SLEEP_INTERRUPT_LED_PIN ATtiny85)
                    @ [Delay 50] @ pulse (SLEEP_INTERRUPT_LED_PIN ATtiny85)"
proof -
  from assms have c: "configured ATtiny85 s" by (simp add: between_loops_def)
  let ?s1 = "loop_resume ATtiny85 ((loop_suspend ATtiny85 s)
          \<lparr>trace := trace s @ [Delay 50], SREG_I := True\<rparr>)"
  have l: "loop ATtiny85 (PinChange (PCINT0_PIN ATtiny85)) s = Woken ?s1"
    using pin_change_cycle [OF c] by simp
  with between_loops_loop [OF assms, of "PinChange (PCINT0_PIN ATtiny85)"]
  have "between_loops ATtiny85 ?s1" by simp
  then have c1: "configured ATtiny85 ?s1" by (simp add: between_loops_def)
  let ?s2 = "loop_resume ATtiny85 ((loop_suspend ATtiny85 ?s1)
          \<lparr>trace := trace ?s1 @ [Delay 50], SREG_I := True\<rparr>)"
  have l2: "loop ATtiny85 (PinChange (PCINT0_PIN ATtiny85)) ?s1 = Woken ?s2"
    using pin_change_cycle [OF c1] by simp
  have "run ATtiny85 [PinChange (PCINT0_PIN ATtiny85), PinChange (PCINT0_PIN ATtiny85)] s = ?s2"
    using l l2 by (simp del: PCINT0_PIN.simps)
  then show ?thesis by simp
qed

lemma pin_change_never_wakes_atmega:
  "loop ATmega328P (PinChange (PCINT0_PIN ATmega328P)) (run ATmega328P es (boot ATmega328P))
     = Sleeping"
  using pin_change_cycle [OF reachable_configured, of ATmega328P es] by simp

text \<open>
  Claim C10 at its failing input. On the ATmega328P the switch is on digital pin 8, which is
  PB0 with mask bit 0, but \<^verbatim>\<open>configPinChangeInt0()\<close> sets mask bit \<^verbatim>\<open>PCINT1\<close>, the bit of
  pin 9. A press and release of the switch right after \<^verbatim>\<open>setup()\<close> wakes nothing: the state
  is unchanged and no signal is logged, where the claim says two wake cycles.
\<close>

theorem pin_change_switch_not_watched:
  "PCINT0_PIN ATmega328P = 8
   \<and> PCMSK0 (boot ATmega328P) = BV PCINT1
   \<and> \<not> pcint0_enabled ATmega328P 8 (boot ATmega328P)
   \<and> loop ATmega328P (PinChange 8) (boot ATmega328P) = Sleeping
   \<and> run ATmega328P [PinChange 8, PinChange 8] (boot ATmega328P) = boot ATmega328P
   \<and> signals (SLEEP_INTERRUPT_LED_PIN ATmega328P)
        (emitted (boot ATmega328P) (run ATmega328P [PinChange 8, PinChange 8] (boot ATmega328P)))
      = 0"
proof -
  have c: "configured ATmega328P (boot ATmega328P)" by (rule boot_configured)
  have l: "loop ATmega328P (PinChange 8) (boot ATmega328P) = Sleeping"
    using pin_change_cycle [OF c] by simp
  then have r: "run ATmega328P [PinChange 8, PinChange 8] (boot ATmega328P) = boot ATmega328P"
    by simp
  show ?thesis unfolding r using c l by (simp add: emitted_def BV_def)
qed

section \<open>Handlers served before the budget check\<close>

text \<open>
  With no stimulus served between the waking handler and the rest of the loop body, the
  interleaved loop and run are the ones used so far.
\<close>

lemma loop_interleaved_Nil [simp]: "loop_interleaved p e [] s = loop p e s"
  by (simp add: loop_interleaved_def loop_def split: wake.splits)

lemma run_interleaved_alternating:
  "run_interleaved p (map (\<lambda>e. (e, [])) es) s = run p es s"
  by (induction es arbitrary: s) (simp_all split: wake.splits)

lemma run_interleaved_replicate:
  "run_interleaved p (replicate n (e, [])) s = run p (replicate n e) s"
  using run_interleaved_alternating [of p "replicate n e" s] by (simp add: map_replicate)

lemma elapsed_ms_append [simp]: "elapsed_ms (xs @ ys) = elapsed_ms xs + elapsed_ms ys"
  by (induction xs rule: elapsed_ms.induct) simp_all

lemma elapsed_ms_pulse [simp]: "elapsed_ms (pulse pin) = 400"
  by (simp add: pulse_def)

lemma elapsed_ms_concat_replicate:
  "elapsed_ms (concat (replicate n x)) = n * elapsed_ms x"
  by (induction n) simp_all

text \<open>The state before the tenth time-out.\<close>

lemma ninth_state:
  "between_loops p (run p (replicate 9 WdtTimeout) (boot p))
   \<and> watchdogTimeoutsRemaining (run p (replicate 9 WdtTimeout) (boot p)) = 1"
proof -
  have b: "unat (watchdogTimeoutsRemaining (boot p)) = 10"
    by (simp add: boot_def setup_sketch_fields power_on_def)
  from idle_budget [OF boot_between_loops, of 9 p] b
  have inv: "between_loops p (run p (replicate 9 WdtTimeout) (boot p))"
    and one: "unat (watchdogTimeoutsRemaining (run p (replicate 9 WdtTimeout) (boot p))) = 1"
    by simp_all
  from one have "watchdogTimeoutsRemaining (run p (replicate 9 WdtTimeout) (boot p)) = 1"
    by (metis unat_1 word_unat_eq_iff)
  with inv show ?thesis by simp
qed

text \<open>
  A watchdog wake whose handler is followed, before the loop body goes on, by a held INT0 input
  and a second watchdog time-out.
\<close>

lemma straddled_cycle:
  assumes inv: "between_loops ATtiny85 s" and one: "watchdogTimeoutsRemaining s = 1"
  shows "loop_interleaved ATtiny85 WdtTimeout [Int0Low k, WdtTimeout] s =
     Woken (loop_resume ATtiny85 ((loop_suspend ATtiny85 s)
       \<lparr>watchdogTimeoutsRemaining := - 1,
         trace := trace s @ pulse (WATCHDOG_TIMEOUT_LED_PIN ATtiny85)
           @ concat (replicate (Suc k) (pulse (WATCHDOG_TIMEOUT_LED_PIN ATtiny85)
                                       @ pulse (WATCHDOG_TIMEOUT_LED_PIN ATtiny85)))
           @ pulse (WATCHDOG_TIMEOUT_LED_PIN ATtiny85),
         WD_CONTROL_REG := 105, SREG_I := True\<rparr>))"
proof -
  let ?W = "pulse (WATCHDOG_TIMEOUT_LED_PIN ATtiny85)"
  let ?s4 = "(loop_suspend ATtiny85 s)\<lparr>watchdogTimeoutsRemaining := 0,
                trace := trace s @ ?W, WD_CONTROL_REG := 105, SREG_I := True\<rparr>"
  let ?s5 = "?s4\<lparr>trace := trace ?s4 @ concat (replicate (Suc k) (?W @ ?W)), SREG_I := True\<rparr>"
  from inv one have wd: "WD_CONTROL_REG (loop_suspend ATtiny85 s) = 105" "SREG_I (loop_suspend ATtiny85 s)"
    by (simp_all add: between_loops_def)
  then have w1: "sleep_cpu ATtiny85 WdtTimeout (loop_suspend ATtiny85 s) = Woken ?s4"
    unfolding watchdog_wake using one by simp
  from inv have c: "configured ATtiny85 s" by (simp add: between_loops_def)
  have c4: "configured ATtiny85 ?s4"
    by (rule configured_frame [OF c]) simp_all
  from configured_sense [OF c4] have sense: "int0_enabled ATtiny85 ?s4" "int0_sense ATtiny85 ?s4 = LowLevel"
    by simp_all
  have w2: "sleep_cpu ATtiny85 (Int0Low k) ?s4 = Woken ?s5"
    using sense by (simp add: int0_repeat del: funpow.simps replicate.simps)
  have w3: "sleep_cpu ATtiny85 WdtTimeout ?s5 =
     Woken (?s5\<lparr>watchdogTimeoutsRemaining := - 1,
                  trace := trace ?s5 @ ?W, WD_CONTROL_REG := 105, SREG_I := True\<rparr>)"
    unfolding watchdog_wake by simp
  have "serve_pending ATtiny85 [Int0Low k, WdtTimeout] ?s4 =
     Some (?s5\<lparr>watchdogTimeoutsRemaining := - 1,
                  trace := trace ?s5 @ ?W, WD_CONTROL_REG := 105, SREG_I := True\<rparr>)"
    using w2 w3 by (simp del: sleep_cpu.simps replicate.simps)
  with w1 show ?thesis
    by (simp add: loop_interleaved_def del: sleep_cpu.simps replicate.simps)
qed

text \<open>A watchdog wake in a state where the watchdog is armed, whatever the budget.\<close>

lemma armed_watchdog_cycle:
  assumes "WD_CONTROL_REG s = 105" and "SREG_I s" and "watchdogTimeoutsRemaining s \<noteq> 1"
  obtains s' where "loop p WdtTimeout s = Woken s'"
    and "watchdogTimeoutsRemaining s' = watchdogTimeoutsRemaining s - 1"
    and "WD_CONTROL_REG s' = 105" and "SREG_I s'"
    and "trace s' = trace s @ pulse (WATCHDOG_TIMEOUT_LED_PIN p) @ pulse (SLEEP_INTERRUPT_LED_PIN p)"
proof -
  let ?s4 = "(loop_suspend p s)\<lparr>watchdogTimeoutsRemaining := watchdogTimeoutsRemaining s - 1,
                trace := trace s @ pulse (WATCHDOG_TIMEOUT_LED_PIN p),
                WD_CONTROL_REG := 105, SREG_I := True\<rparr>"
  from assms(1,2) have "WD_CONTROL_REG (loop_suspend p s) = 105" "SREG_I (loop_suspend p s)"
    by simp_all
  then have "sleep_cpu p WdtTimeout (loop_suspend p s) = Woken ?s4"
    unfolding watchdog_wake by simp
  then have l: "loop p WdtTimeout s = Woken (loop_resume p ?s4)"
    by (simp add: loop_def)
  from assms(3) have nz: "watchdogTimeoutsRemaining s - 1 \<noteq> 0" by simp
  show thesis
    by (rule that [of "loop_resume p ?s4"]) (use l nz in simp_all)
qed

lemma runaway:
  assumes "WD_CONTROL_REG s = 105" and "SREG_I s"
    and "\<forall>j<n. watchdogTimeoutsRemaining s \<noteq> 1 + of_nat j"
  shows "watchdogTimeoutsRemaining (run p (replicate n WdtTimeout) s)
           = watchdogTimeoutsRemaining s - of_nat n
       \<and> WD_CONTROL_REG (run p (replicate n WdtTimeout) s) = 105
       \<and> trace (run p (replicate n WdtTimeout) s) = trace s @ concat (replicate n
             (pulse (WATCHDOG_TIMEOUT_LED_PIN p) @ pulse (SLEEP_INTERRUPT_LED_PIN p)))"
  using assms
proof (induction n arbitrary: s)
  case 0
  then show ?case by simp
next
  case (Suc n)
  from Suc.prems(3) have "watchdogTimeoutsRemaining s \<noteq> 1 + of_nat 0" by blast
  then have n1: "watchdogTimeoutsRemaining s \<noteq> 1" by simp
  from armed_watchdog_cycle [OF Suc.prems(1,2) n1, of p] obtain s' where
    s': "loop p WdtTimeout s = Woken s'"
      "watchdogTimeoutsRemaining s' = watchdogTimeoutsRemaining s - 1"
      "WD_CONTROL_REG s' = 105" "SREG_I s'"
      "trace s' = trace s @ pulse (WATCHDOG_TIMEOUT_LED_PIN p) @ pulse (SLEEP_INTERRUPT_LED_PIN p)"
    by blast
  have "\<forall>j<n. watchdogTimeoutsRemaining s' \<noteq> 1 + of_nat j"
  proof (intro allI impI)
    fix j assume "j < n"
    with Suc.prems(3) have neq: "watchdogTimeoutsRemaining s \<noteq> 1 + of_nat (Suc j)" by blast
    show "watchdogTimeoutsRemaining s' \<noteq> 1 + of_nat j"
    proof
      assume "watchdogTimeoutsRemaining s' = 1 + of_nat j"
      then have "watchdogTimeoutsRemaining s - 1 = 1 + of_nat j" by (simp only: s'(2))
      then have "watchdogTimeoutsRemaining s = 1 + (1 + of_nat j)"
        by (metis add.commute diff_add_cancel)
      then have "watchdogTimeoutsRemaining s = 1 + of_nat (Suc j)" by simp
      with neq show False by contradiction
    qed
  qed
  from Suc.IH [OF s'(3,4) this] s'(1,2,5) show ?case
    by (simp add: algebra_simps)
qed

text \<open>
  Claim C3 at its failing input. On the ATtiny85 nine watchdog wake cycles leave the budget
  at 1. The tenth time-out takes it to 0 and its handler re-arms the watchdog. The INT0 input
  is pulled low while that handler runs and is found still low at ten further handler
  returns, so the INT0 handler runs eleven times: the delays from the start of the tenth
  watchdog handler to the release add up to 9200 ms, more than the watchdog period of eight
  seconds. The eleventh time-out is therefore served before the loop body reaches its check.
  The budget is then -1, the test for 0 fails and the watchdog stays armed; five periods
  later the budget is -6 and five more pulses of the watchdog LED have been logged.
\<close>

theorem budget_underflow_straddle:
  "(let s9 = run_interleaved ATtiny85 (replicate 9 (WdtTimeout, [])) (boot ATtiny85);
        s10 = run_interleaved ATtiny85 [(WdtTimeout, [Int0Low 10, WdtTimeout])] s9;
        s15 = run_interleaved ATtiny85 (replicate 5 (WdtTimeout, [])) s10
    in watchdogTimeoutsRemaining s9 = 1
       \<and> emitted s9 s10 =
           pulse (WATCHDOG_TIMEOUT_LED_PIN ATtiny85)
           @ concat (replicate 11 (pulse (WATCHDOG_TIMEOUT_LED_PIN ATtiny85)
                                  @ pulse (WATCHDOG_TIMEOUT_LED_PIN ATtiny85)))
           @ pulse (WATCHDOG_TIMEOUT_LED_PIN ATtiny85)
           @ pulse (SLEEP_INTERRUPT_LED_PIN ATtiny85)
       \<and> elapsed_ms (pulse (WATCHDOG_TIMEOUT_LED_PIN ATtiny85)
           @ concat (replicate 11 (pulse (WATCHDOG_TIMEOUT_LED_PIN ATtiny85)
                                  @ pulse (WATCHDOG_TIMEOUT_LED_PIN ATtiny85)))) = 9200
       \<and> sint (watchdogTimeoutsRemaining s10) = - 1
       \<and> WD_CONTROL_REG s10 = 105
       \<and> sint (watchdogTimeoutsRemaining s15) = - 6
       \<and> WD_CONTROL_REG s15 = 105
       \<and> signals (WATCHDOG_TIMEOUT_LED_PIN ATtiny85) (emitted s10 s15) = 5)"
proof -
  let ?W = "pulse (WATCHDOG_TIMEOUT_LED_PIN ATtiny85)"
  let ?S = "pulse (SLEEP_INTERRUPT_LED_PIN ATtiny85)"
  let ?s9 = "run ATtiny85 (replicate 9 WdtTimeout) (boot ATtiny85)"
  let ?s6 = "(loop_suspend ATtiny85 ?s9)
       \<lparr>watchdogTimeoutsRemaining := - 1,
         trace := trace ?s9 @ ?W @ concat (replicate (Suc 10) (?W @ ?W)) @ ?W,
         WD_CONTROL_REG := 105, SREG_I := True\<rparr>"
  let ?s10 = "loop_resume ATtiny85 ?s6"
  let ?s15 = "run ATtiny85 (replicate 5 WdtTimeout) ?s10"
  from ninth_state [of ATtiny85]
  have inv: "between_loops ATtiny85 ?s9" and one: "watchdogTimeoutsRemaining ?s9 = 1"
    by simp_all
  have r10: "run_interleaved ATtiny85 [(WdtTimeout, [Int0Low 10, WdtTimeout])] ?s9 = ?s10"
    using straddled_cycle [OF inv one, of 10] by (simp del: replicate.simps)
  have b10: "watchdogTimeoutsRemaining ?s10 = - 1" by simp
  have w10: "WD_CONTROL_REG ?s10 = 105" by simp
  have i10: "SREG_I ?s10" by simp
  have e10: "emitted ?s9 ?s10 = ?W @ concat (replicate 11 (?W @ ?W)) @ ?W @ ?S"
    by (rule emitted_append) (simp del: replicate.simps)
  have "\<forall>j<5. watchdogTimeoutsRemaining ?s10 \<noteq> 1 + of_nat j"
  proof (intro allI impI)
    fix j :: nat
    assume "j < 5"
    then consider "j = 0" | "j = 1" | "j = 2" | "j = 3" | "j = 4" by linarith
    then show "watchdogTimeoutsRemaining ?s10 \<noteq> 1 + of_nat j"
      unfolding b10 by cases simp_all
  qed
  from runaway [OF w10 i10 this, of ATtiny85]
  have b15: "watchdogTimeoutsRemaining ?s15 = - 6" and w15: "WD_CONTROL_REG ?s15 = 105"
    and t15: "trace ?s15 = trace ?s10 @ concat (replicate 5 (?W @ ?S))"
    unfolding b10 by simp_all
  have e15: "emitted ?s10 ?s15 = concat (replicate 5 (?W @ ?S))"
    using t15 by (rule emitted_append)
  have el: "elapsed_ms (?W @ concat (replicate 11 (?W @ ?W))) = 9200"
    by (simp add: elapsed_ms_concat_replicate del: replicate.simps)
  have s5: "signals (WATCHDOG_TIMEOUT_LED_PIN ATtiny85) (emitted ?s10 ?s15) = 5"
    unfolding e15 by (simp add: signals_concat_replicate del: replicate.simps)
  show ?thesis
    unfolding Let_def run_interleaved_replicate r10
    using one e10 el b10 w10 b15 w15 s5 by simp
qed

text \<open>
  Once the watchdog is off it stays off under the interleaved schedule as well: nothing in
  the sketch enables it again.
\<close>

lemma exhausted_served:
  assumes "exhausted s"
  shows "sleep_cpu p e s = Sleeping \<or> (\<exists>s'. sleep_cpu p e s = Woken s' \<and> exhausted s')"
proof (cases "e = WdtTimeout")
  case True
  with assms show ?thesis unfolding True watchdog_wake by (simp add: exhausted_def)
next
  case False
  show ?thesis
  proof (cases "sleep_cpu p e s")
    case Sleeping
    then show ?thesis by simp
  next
    case (Woken s')
    from manual_wake_frame(1,2) [OF Woken False] assms have "exhausted s'"
      by (simp add: exhausted_def)
    with Woken show ?thesis by simp
  next
    case SystemReset
    with False show ?thesis by (cases e) (simp_all split: if_splits sense.splits)
  qed
qed

lemma exhausted_serve_pending:
  "exhausted s \<Longrightarrow> \<exists>s'. serve_pending p es s = Some s' \<and> exhausted s'"
proof (induction es arbitrary: s)
  case Nil
  then show ?case by simp
next
  case (Cons e es)
  from exhausted_served [OF Cons.prems, of p e] show ?case
  proof
    assume "sleep_cpu p e s = Sleeping"
    then show ?thesis using Cons.IH [OF Cons.prems] by simp
  next
    assume "\<exists>s'. sleep_cpu p e s = Woken s' \<and> exhausted s'"
    then obtain s' where "sleep_cpu p e s = Woken s'" and "exhausted s'" by blast
    then show ?thesis using Cons.IH [of s'] by simp
  qed
qed

lemma exhausted_loop_interleaved:
  assumes "exhausted s"
  shows "loop_interleaved p e pending s = Sleeping
       \<or> (\<exists>s'. loop_interleaved p e pending s = Woken s' \<and> exhausted s')"
proof -
  from assms have ex: "exhausted (loop_suspend p s)" by (simp add: exhausted_def)
  from exhausted_served [OF ex, of p e] show ?thesis
  proof
    assume "sleep_cpu p e (loop_suspend p s) = Sleeping"
    then show ?thesis by (simp add: loop_interleaved_def)
  next
    assume "\<exists>s4. sleep_cpu p e (loop_suspend p s) = Woken s4 \<and> exhausted s4"
    then obtain s4 where w: "sleep_cpu p e (loop_suspend p s) = Woken s4" and "exhausted s4"
      by blast
    from exhausted_serve_pending [OF this(2), of p pending] obtain s5 where
      s5: "serve_pending p pending s4 = Some s5" "exhausted s5" by blast
    from s5(2) have "exhausted (loop_resume p s5)" by (simp add: exhausted_def)
    with w s5(1) show ?thesis by (simp add: loop_interleaved_def)
  qed
qed

lemma exhausted_run_interleaved: "exhausted s \<Longrightarrow> exhausted (run_interleaved p cs s)"
proof (induction cs arbitrary: s)
  case Nil
  then show ?case by simp
next
  case (Cons c cs)
  obtain e pending where c: "c = (e, pending)" by (cases c)
  from exhausted_loop_interleaved [OF Cons.prems, of p e pending] show ?case
  proof
    assume "loop_interleaved p e pending s = Sleeping"
    then show ?thesis using Cons.IH [OF Cons.prems] c by simp
  next
    assume "\<exists>s'. loop_interleaved p e pending s = Woken s' \<and> exhausted s'"
    then obtain s' where "loop_interleaved p e pending s = Woken s'" and "exhausted s'" by blast
    then show ?thesis using Cons.IH [of s'] c by simp
  qed
qed

end
